theory Spec2Isabelle
  imports Main
begin

section \<open>The Go constructs used by the semaphore\<close>

subsection \<open>Machine integers\<close>

text \<open>
  Go's \<open>int\<close> (64 bits on the usual platforms) is modelled as an \<open>int\<close> with the
  two's-complement wrap-around of \<open>++\<close>, \<open>--\<close> and \<open>-\<close> written out.
\<close>

definition int64 :: "int \<Rightarrow> int" where
  "int64 x = (x + 2 ^ 63) mod 2 ^ 64 - 2 ^ 63"

definition is_int64 :: "int \<Rightarrow> bool" where
  "is_int64 x \<longleftrightarrow> - (2 ^ 63) \<le> x \<and> x < 2 ^ 63"

subsection \<open>Buffered channels of \<open>struct{}\<close>\<close>

text \<open>
  A \<open>chan struct{}\<close> holds a queue of values of the one-element type and a fixed
  capacity. \<open>make(chan struct{}, n)\<close> panics when \<open>n\<close> is negative (result \<open>None\<close>).
\<close>

record chan =
  buf :: "unit list"
  cap :: nat

definition make_chan :: "int \<Rightarrow> chan option" where
  "make_chan n = (if n < 0 then None else Some \<lparr>buf = [], cap = nat n\<rparr>)"

definition can_recv :: "chan \<Rightarrow> bool" where
  "can_recv c \<longleftrightarrow> buf c \<noteq> []"

definition can_send :: "chan \<Rightarrow> bool" where
  "can_send c \<longleftrightarrow> length (buf c) < cap c"

definition recv :: "chan \<Rightarrow> chan" where
  "recv c = c\<lparr>buf := tl (buf c)\<rparr>"

definition send :: "chan \<Rightarrow> chan" where
  "send c = c\<lparr>buf := buf c @ [()]\<rparr>"

subsection \<open>Time and the \<open>select\<close> statement with a timer case\<close>

text \<open>
  Both blocking operations have the shape
  \<^verbatim>\<open>select { case <channel operation>: ...; case <-time.After(timeout): ... }\<close>.
  The goroutine under study runs alone: nobody else touches the channel, so a channel
  operation that cannot proceed when the \<open>select\<close> is entered never can, and the
  timer case is taken once the timer has fired. When the channel operation can proceed,
  it is taken, unless the timer is already due at that moment (its duration is not
  larger than the time \<open>lag\<close> the goroutine needed to reach the \<open>select\<close>; always so
  for a duration \<open>\<le> 0\<close>): then Go chooses between the two ready cases at random, and
  \<open>pick\<close> is that choice.

  What the scheduler contributes to one \<open>select\<close> is a \<open>sched\<close>; the environment
  \<open>env\<close> carries the clock (nanoseconds) and the list of scheduler contributions still
  to come. Once the list is used up, scheduling is prompt: no lag, channel case
  preferred. The channel case is over \<open>lag\<close> after the \<open>select\<close> statement was begun;
  the timer case no earlier than the timer's duration after it. Code outside a
  \<open>select\<close> takes no time.
\<close>

datatype select_case = ChanCase | TimerCase

record sched =
  pick :: select_case
  lag :: nat

record env =
  clock :: int
  pending :: "sched list"

definition prompt :: sched where
  "prompt = \<lparr>pick = ChanCase, lag = 0\<rparr>"

definition next_sched :: "env \<Rightarrow> sched \<times> env" where
  "next_sched e =
     (case pending e of
        [] \<Rightarrow> (prompt, e)
      | sc # rest \<Rightarrow> (sc, e\<lparr>pending := rest\<rparr>))"

definition timer_wins :: "int \<Rightarrow> sched \<Rightarrow> bool" where
  "timer_wins d sc \<longleftrightarrow> pick sc = TimerCase \<and> d \<le> int (lag sc)"

definition select_timeout :: "bool \<Rightarrow> int \<Rightarrow> env \<Rightarrow> select_case \<times> env" where
  "select_timeout ready d e =
     (case next_sched e of (sc, e1) \<Rightarrow>
        if ready \<and> \<not> timer_wins d sc
        then (ChanCase, e1\<lparr>clock := clock e1 + int (lag sc)\<rparr>)
        else (TimerCase, e1\<lparr>clock := clock e1 + max d (int (lag sc))\<rparr>))"

text \<open>
  An environment is punctual for a duration when none of its scheduler contributions lets
  a timer of that duration win over a ready channel.
\<close>

definition punctual :: "int \<Rightarrow> env \<Rightarrow> bool" where
  "punctual d e \<longleftrightarrow> list_all (\<lambda>sc. \<not> timer_wins d sc) (pending e)"

section \<open>The counting semaphore\<close>

text \<open>
  The struct \<open>CountingSemaphore\<close>. The field \<open>mutex\<close> is left out: every method
  that locks it unlocks it before returning, and a single goroutine never finds it held.
\<close>

record CountingSemaphore =
  sem :: chan
  maxPermits :: int
  currentPermits :: int
  timeout :: int

text \<open>
  The error values, one constructor for each \<open>fmt.Errorf\<close> of the source, with the
  arguments that are formatted into the message:
  \<^item> \<open>AcquireTimeout\<close>: the timer case of \<open>Acquire\<close>;
  \<^item> \<open>ReleaseTimeout\<close>: the timer case of \<open>Release\<close>;
  \<^item> \<open>TooManyRequested n maxPermits\<close>: the first check of \<open>AcquireN\<close>;
  \<^item> \<open>NotEnoughPermits available n\<close>: the second check of \<open>AcquireN\<close>;
  \<^item> \<open>TooManyReleased n availableToRelease\<close>: the check of \<open>ReleaseN\<close>.
\<close>

datatype sem_error =
    AcquireTimeout
  | ReleaseTimeout
  | TooManyRequested int int
  | NotEnoughPermits int int
  | TooManyReleased int int

text \<open>The three kinds of error that the specification distinguishes.\<close>

datatype error_kind = TimeoutError | InvalidRequest | InsufficientPermits

fun kind :: "sem_error \<Rightarrow> error_kind" where
  "kind AcquireTimeout = TimeoutError"
| "kind ReleaseTimeout = TimeoutError"
| "kind (TooManyRequested n m) = InvalidRequest"
| "kind (NotEnoughPermits a n) = InsufficientPermits"
| "kind (TooManyReleased n a) = InvalidRequest"

type_synonym 'a outcome = "'a \<times> CountingSemaphore \<times> env"

definition Acquire :: "CountingSemaphore \<Rightarrow> env \<Rightarrow> sem_error option outcome" where
  "Acquire cs e =
     (case select_timeout (can_recv (sem cs)) (timeout cs) e of
        (ChanCase, e') \<Rightarrow>
          (None,
           cs\<lparr>sem := recv (sem cs), currentPermits := int64 (currentPermits cs - 1)\<rparr>,
           e')
      | (TimerCase, e') \<Rightarrow> (Some AcquireTimeout, cs, e'))"

text \<open>\<open>TryAcquire\<close> has a \<open>default\<close> case and no timer: it never consults the scheduler.\<close>

definition TryAcquire :: "CountingSemaphore \<Rightarrow> bool \<times> CountingSemaphore" where
  "TryAcquire cs =
     (if can_recv (sem cs)
      then (True,
            cs\<lparr>sem := recv (sem cs), currentPermits := int64 (currentPermits cs - 1)\<rparr>)
      else (False, cs))"

definition Release :: "CountingSemaphore \<Rightarrow> env \<Rightarrow> sem_error option outcome" where
  "Release cs e =
     (case select_timeout (can_send (sem cs)) (timeout cs) e of
        (ChanCase, e') \<Rightarrow>
          (None,
           cs\<lparr>sem := send (sem cs), currentPermits := int64 (currentPermits cs + 1)\<rparr>,
           e')
      | (TimerCase, e') \<Rightarrow> (Some ReleaseTimeout, cs, e'))"

definition AvailablePermits :: "CountingSemaphore \<Rightarrow> int" where
  "AvailablePermits cs = currentPermits cs"

text \<open>
  The loop of \<open>ReleaseN\<close>, entered with \<open>i = 0\<close>. The counter needs no wrap-around:
  it is incremented only below \<open>n\<close>.
\<close>

function ReleaseN_loop ::
  "int \<Rightarrow> int \<Rightarrow> CountingSemaphore \<Rightarrow> env \<Rightarrow> sem_error option outcome" where
  "ReleaseN_loop i n cs e =
     (if i < n then
        (case Release cs e of
           (Some err, cs', e') \<Rightarrow> (Some err, cs', e')
         | (None, cs', e') \<Rightarrow> ReleaseN_loop (i + 1) n cs' e')
      else (None, cs, e))"
  by pat_completeness auto
termination
  by (relation "measure (\<lambda>(i, n, cs, e). nat (n - i))") auto

definition ReleaseN :: "int \<Rightarrow> CountingSemaphore \<Rightarrow> env \<Rightarrow> sem_error option outcome" where
  "ReleaseN n cs e =
     (let availableToRelease = int64 (maxPermits cs - currentPermits cs) in
      if n > availableToRelease then (Some (TooManyReleased n availableToRelease), cs, e)
      else ReleaseN_loop 0 n cs e)"

text \<open>
  The loop of \<open>AcquireN\<close>. When an \<open>Acquire\<close> fails, \<open>ReleaseN i\<close> is called and its
  result is dropped; the error of the \<open>Acquire\<close> is returned.
\<close>

function AcquireN_loop ::
  "int \<Rightarrow> int \<Rightarrow> CountingSemaphore \<Rightarrow> env \<Rightarrow> sem_error option outcome" where
  "AcquireN_loop i n cs e =
     (if i < n then
        (case Acquire cs e of
           (Some err, cs', e') \<Rightarrow>
             (case ReleaseN i cs' e' of (r, cs'', e'') \<Rightarrow> (Some err, cs'', e''))
         | (None, cs', e') \<Rightarrow> AcquireN_loop (i + 1) n cs' e')
      else (None, cs, e))"
  by pat_completeness auto
termination
  by (relation "measure (\<lambda>(i, n, cs, e). nat (n - i))") auto

definition AcquireN :: "int \<Rightarrow> CountingSemaphore \<Rightarrow> env \<Rightarrow> sem_error option outcome" where
  "AcquireN n cs e =
     (if n > maxPermits cs then (Some (TooManyRequested n (maxPermits cs)), cs, e)
      else if AvailablePermits cs < n
        then (Some (NotEnoughPermits (AvailablePermits cs) n), cs, e)
      else AcquireN_loop 0 n cs e)"

text \<open>
  The constructor. Its loop sends on the channel without a \<open>select\<close>: a send on a full
  channel would block forever (\<open>None\<close>).
\<close>

function fill :: "int \<Rightarrow> int \<Rightarrow> chan \<Rightarrow> chan option" where
  "fill i maxP c =
     (if i < maxP then (if can_send c then fill (i + 1) maxP (send c) else None)
      else Some c)"
  by pat_completeness auto
termination
  by (relation "measure (\<lambda>(i, maxP, c). nat (maxP - i))") auto

definition NewCountingSemaphore :: "int \<Rightarrow> int \<Rightarrow> CountingSemaphore option" where
  "NewCountingSemaphore maxP tmo =
     (case make_chan maxP of
        None \<Rightarrow> None
      | Some c \<Rightarrow>
          (case fill 0 maxP c of
             None \<Rightarrow> None
           | Some c' \<Rightarrow>
               Some \<lparr>sem = c', maxPermits = maxP, currentPermits = maxP, timeout = tmo\<rparr>))"

section \<open>The state invariant and runs of operations\<close>

text \<open>
  The counter mirrors the channel: \<open>currentPermits\<close> is the number of tokens in the
  channel, the channel's capacity is \<open>maxPermits\<close>, and \<open>maxPermits\<close> is a Go \<open>int\<close>.
\<close>

definition sem_inv :: "CountingSemaphore \<Rightarrow> bool" where
  "sem_inv cs \<longleftrightarrow>
     currentPermits cs = int (length (buf (sem cs))) \<and>
     length (buf (sem cs)) \<le> cap (sem cs) \<and>
     int (cap (sem cs)) = maxPermits cs \<and>
     is_int64 (maxPermits cs)"

text \<open>The state-changing methods as commands, and the states a run of them goes through.\<close>

datatype sem_op = OpAcquire | OpTryAcquire | OpRelease | OpAcquireN int | OpReleaseN int

fun exec_op :: "sem_op \<Rightarrow> CountingSemaphore \<Rightarrow> env \<Rightarrow> CountingSemaphore \<times> env" where
  "exec_op OpAcquire cs e = snd (Acquire cs e)"
| "exec_op OpTryAcquire cs e = (snd (TryAcquire cs), e)"
| "exec_op OpRelease cs e = snd (Release cs e)"
| "exec_op (OpAcquireN n) cs e = snd (AcquireN n cs e)"
| "exec_op (OpReleaseN n) cs e = snd (ReleaseN n cs e)"

fun trace :: "sem_op list \<Rightarrow> CountingSemaphore \<Rightarrow> env \<Rightarrow> CountingSemaphore list" where
  "trace [] cs e = []"
| "trace (p # ps) cs e = (case exec_op p cs e of (cs', e') \<Rightarrow> cs' # trace ps cs' e')"

text \<open>
  \<open>k\<close> \<open>Release\<close> calls one after the other, stopping at the first that fails, with
  the state as that call left it: what the specification says \<open>ReleaseN\<close> does once
  its check has passed.
\<close>

fun release_seq :: "nat \<Rightarrow> CountingSemaphore \<Rightarrow> env \<Rightarrow> sem_error option outcome" where
  "release_seq 0 cs e = (None, cs, e)"
| "release_seq (Suc k) cs e =
     (case Release cs e of
        (Some err, cs', e') \<Rightarrow> (Some err, cs', e')
      | (None, cs', e') \<Rightarrow> release_seq k cs' e')"

declare ReleaseN_loop.simps [simp del] AcquireN_loop.simps [simp del] fill.simps [simp del]

section \<open>Basic facts\<close>

lemma int64_id: "is_int64 x \<Longrightarrow> int64 x = x"
  by (simp add: int64_def is_int64_def)

lemma unit_list_eq: "length (xs :: unit list) = length ys \<Longrightarrow> xs = ys"
proof (induction xs arbitrary: ys)
  case Nil
  then show ?case by simp
next
  case (Cons x xs)
  then show ?case by (cases ys) auto
qed

lemma sem_inv_eqI:
  assumes "sem_inv cs" "sem_inv cs'"
    and "maxPermits cs' = maxPermits cs" "timeout cs' = timeout cs"
    and "currentPermits cs' = currentPermits cs"
  shows "cs' = cs"
proof -
  have "buf (sem cs') = buf (sem cs)"
    using assms by (intro unit_list_eq) (simp add: sem_inv_def)
  moreover have "cap (sem cs') = cap (sem cs)"
    using assms by (simp add: sem_inv_def)
  ultimately have "sem cs' = sem cs" by simp
  with assms show ?thesis by simp
qed

lemma select_timeout_cases:
  assumes "select_timeout ready d e = (c, e')"
  shows "(c = ChanCase \<and> ready \<and> clock e \<le> clock e') \<or> (c = TimerCase \<and> clock e + d \<le> clock e')"
  using assms
  by (auto simp: select_timeout_def timer_wins_def next_sched_def prompt_def split: prod.splits list.splits if_splits)

lemma select_timeout_not_ready:
  "\<not> ready \<Longrightarrow> fst (select_timeout ready d e) = TimerCase"
  by (auto simp: select_timeout_def timer_wins_def split: prod.splits)

lemma Acquire_cases:
  assumes "Acquire cs e = (r, cs', e')"
  shows "(r = None \<and> can_recv (sem cs) \<and> clock e \<le> clock e' \<and>
          cs' = cs\<lparr>sem := recv (sem cs), currentPermits := int64 (currentPermits cs - 1)\<rparr>) \<or>
         (r = Some AcquireTimeout \<and> cs' = cs \<and> clock e + timeout cs \<le> clock e')"
proof (cases "select_timeout (can_recv (sem cs)) (timeout cs) e")
  case (Pair c e1)
  from select_timeout_cases [OF Pair] Pair assms show ?thesis
    by (auto simp: Acquire_def)
qed

lemma Release_cases:
  assumes "Release cs e = (r, cs', e')"
  shows "(r = None \<and> can_send (sem cs) \<and> clock e \<le> clock e' \<and>
          cs' = cs\<lparr>sem := send (sem cs), currentPermits := int64 (currentPermits cs + 1)\<rparr>) \<or>
         (r = Some ReleaseTimeout \<and> cs' = cs \<and> clock e + timeout cs \<le> clock e')"
proof (cases "select_timeout (can_send (sem cs)) (timeout cs) e")
  case (Pair c e1)
  from select_timeout_cases [OF Pair] Pair assms show ?thesis
    by (auto simp: Release_def)
qed

lemma select_timeout_punctual:
  assumes "ready" "punctual d e"
  shows "\<exists>e'. select_timeout ready d e = (ChanCase, e') \<and> punctual d e'"
proof (cases "pending e")
  case Nil
  with assms show ?thesis
    by (simp add: select_timeout_def next_sched_def prompt_def timer_wins_def punctual_def)
next
  case (Cons sc rest)
  with assms show ?thesis
    by (simp add: select_timeout_def next_sched_def punctual_def)
qed

lemma Release_punctual:
  assumes "can_send (sem cs)" "punctual (timeout cs) e"
  shows "\<exists>cs' e'. Release cs e = (None, cs', e') \<and> punctual (timeout cs) e'"
  using select_timeout_punctual [OF assms] by (auto simp: Release_def)

lemma take_token:
  assumes "sem_inv cs" "can_recv (sem cs)"
  defines "cs' \<equiv> cs\<lparr>sem := recv (sem cs), currentPermits := int64 (currentPermits cs - 1)\<rparr>"
  shows "sem_inv cs' \<and> currentPermits cs' = currentPermits cs - 1 \<and>
         maxPermits cs' = maxPermits cs \<and> timeout cs' = timeout cs"
proof -
  from assms have pos: "0 < length (buf (sem cs))" by (simp add: can_recv_def)
  with assms(1) have "is_int64 (currentPermits cs - 1)"
    by (simp add: sem_inv_def is_int64_def)
  then have "int64 (currentPermits cs - 1) = currentPermits cs - 1" by (rule int64_id)
  moreover from pos have "int (length (tl (buf (sem cs)))) = int (length (buf (sem cs))) - 1"
    by (cases "buf (sem cs)") auto
  ultimately show ?thesis
    using assms(1) by (auto simp: cs'_def sem_inv_def recv_def)
qed

lemma put_token:
  assumes "sem_inv cs" "can_send (sem cs)"
  defines "cs' \<equiv> cs\<lparr>sem := send (sem cs), currentPermits := int64 (currentPermits cs + 1)\<rparr>"
  shows "sem_inv cs' \<and> currentPermits cs' = currentPermits cs + 1 \<and>
         maxPermits cs' = maxPermits cs \<and> timeout cs' = timeout cs"
proof -
  from assms have lt: "length (buf (sem cs)) < cap (sem cs)" by (simp add: can_send_def)
  with assms(1) have "is_int64 (currentPermits cs + 1)"
    by (simp add: sem_inv_def is_int64_def)
  then have "int64 (currentPermits cs + 1) = currentPermits cs + 1" by (rule int64_id)
  with assms(1) lt show ?thesis
    by (auto simp: cs'_def sem_inv_def send_def)
qed


lemma Acquire_effect:
  assumes "sem_inv cs" "Acquire cs e = (r, cs', e')"
  shows "sem_inv cs' \<and> maxPermits cs' = maxPermits cs \<and> timeout cs' = timeout cs \<and>
         (r = None \<longrightarrow> currentPermits cs' = currentPermits cs - 1) \<and>
         (r \<noteq> None \<longrightarrow> r = Some AcquireTimeout \<and> cs' = cs)"
  using Acquire_cases [OF assms(2)] take_token [OF assms(1)] assms(1) by auto

lemma Release_effect:
  assumes "sem_inv cs" "Release cs e = (r, cs', e')"
  shows "sem_inv cs' \<and> maxPermits cs' = maxPermits cs \<and> timeout cs' = timeout cs \<and>
         (r = None \<longrightarrow> currentPermits cs' = currentPermits cs + 1) \<and>
         (r \<noteq> None \<longrightarrow> r = Some ReleaseTimeout \<and> cs' = cs)"
  using Release_cases [OF assms(2)] put_token [OF assms(1)] assms(1) by auto


lemma ReleaseN_loop_effect:
  "sem_inv cs \<Longrightarrow> ReleaseN_loop i n cs e = (r, cs', e') \<Longrightarrow>
     sem_inv cs' \<and> maxPermits cs' = maxPermits cs \<and> timeout cs' = timeout cs \<and>
     (r = None \<longrightarrow> currentPermits cs' = currentPermits cs + max 0 (n - i)) \<and>
     (r \<noteq> None \<longrightarrow> r = Some ReleaseTimeout \<and> currentPermits cs \<le> currentPermits cs' \<and>
        currentPermits cs' < currentPermits cs + (n - i))"
proof (induction i n cs e rule: ReleaseN_loop.induct)
  case (1 i n cs e)
  show ?case
  proof (cases "i < n")
    case False
    with "1.prems" show ?thesis by (simp add: ReleaseN_loop.simps)
  next
    case True
    obtain r1 cs1 e1 where rel: "Release cs e = (r1, cs1, e1)"
      by (cases "Release cs e") auto
    note eff = Release_effect [OF "1.prems"(1) rel]
    show ?thesis
    proof (cases r1)
      case (Some err)
      with True rel "1.prems"(2) have "r = r1" "cs' = cs1"
        by (simp_all add: ReleaseN_loop.simps)
      with eff Some True show ?thesis by auto
    next
      case None
      with True rel "1.prems"(2) have "ReleaseN_loop (i + 1) n cs1 e1 = (r, cs', e')"
        by (simp add: ReleaseN_loop.simps)
      from "1.IH" [OF True rel [symmetric] None refl _ this] eff None True
      show ?thesis by auto
    qed
  qed
qed


lemma outstanding_int64:
  assumes "sem_inv cs"
  shows "int64 (maxPermits cs - currentPermits cs) = maxPermits cs - currentPermits cs"
    and "0 \<le> currentPermits cs" and "currentPermits cs \<le> maxPermits cs"
proof -
  from assms show "0 \<le> currentPermits cs" and "currentPermits cs \<le> maxPermits cs"
    by (simp_all add: sem_inv_def)
  with assms have "is_int64 (maxPermits cs - currentPermits cs)"
    by (simp add: sem_inv_def is_int64_def)
  then show "int64 (maxPermits cs - currentPermits cs) = maxPermits cs - currentPermits cs"
    by (rule int64_id)
qed

lemma ReleaseN_effect:
  assumes "sem_inv cs" "ReleaseN n cs e = (r, cs', e')"
  shows "sem_inv cs' \<and> maxPermits cs' = maxPermits cs \<and> timeout cs' = timeout cs \<and>
         currentPermits cs \<le> currentPermits cs' \<and>
         currentPermits cs' \<le> currentPermits cs + max 0 n \<and>
         (r = None \<longrightarrow> currentPermits cs' = currentPermits cs + max 0 n)"
proof (cases "n > int64 (maxPermits cs - currentPermits cs)")
  case True
  with assms(2) have "cs' = cs" "r \<noteq> None" by (auto simp: ReleaseN_def Let_def)
  with assms(1) show ?thesis by auto
next
  case False
  with assms(2) have "ReleaseN_loop 0 n cs e = (r, cs', e')" by (simp add: ReleaseN_def)
  from ReleaseN_loop_effect [OF assms(1) this] show ?thesis by auto
qed

lemma ReleaseN_loop_punctual:
  "sem_inv cs \<Longrightarrow> currentPermits cs + (n - i) \<le> maxPermits cs \<Longrightarrow>
     punctual (timeout cs) e \<Longrightarrow> fst (ReleaseN_loop i n cs e) = None"
proof (induction i n cs e rule: ReleaseN_loop.induct)
  case (1 i n cs e)
  show ?case
  proof (cases "i < n")
    case False
    then show ?thesis by (simp add: ReleaseN_loop.simps [of i n])
  next
    case True
    with "1.prems" have room: "can_send (sem cs)"
      by (simp add: sem_inv_def can_send_def)
    from Release_punctual [OF room "1.prems"(3)]
    obtain cs1 e1 where rel: "Release cs e = (None, cs1, e1)"
      and p1: "punctual (timeout cs) e1" by auto
    note eff = Release_effect [OF "1.prems"(1) rel]
    from eff "1.prems"(2) p1
    have "fst (ReleaseN_loop (i + 1) n cs1 e1) = None"
      by (intro "1.IH" [OF True rel [symmetric] refl refl]) simp_all
    with True rel show ?thesis by (simp add: ReleaseN_loop.simps [of i n])
  qed
qed

lemma ReleaseN_punctual:
  assumes "sem_inv cs" "n \<le> maxPermits cs - currentPermits cs" "punctual (timeout cs) e"
  shows "fst (ReleaseN n cs e) = None"
  using assms outstanding_int64 [OF assms(1)] ReleaseN_loop_punctual [of cs n 0 e]
  by (simp add: ReleaseN_def)

lemma AcquireN_loop_effect:
  "sem_inv cs \<Longrightarrow> AcquireN_loop i n cs e = (r, cs', e') \<Longrightarrow>
     sem_inv cs' \<and> maxPermits cs' = maxPermits cs \<and> timeout cs' = timeout cs \<and>
     currentPermits cs - max 0 (n - i) \<le> currentPermits cs' \<and>
     currentPermits cs' \<le> currentPermits cs + max 0 i \<and>
     (r = None \<longrightarrow> currentPermits cs' = currentPermits cs - max 0 (n - i)) \<and>
     (r \<noteq> None \<longrightarrow> r = Some AcquireTimeout)"
proof (induction i n cs e rule: AcquireN_loop.induct)
  case (1 i n cs e)
  show ?case
  proof (cases "i < n")
    case False
    with "1.prems" show ?thesis by (simp add: AcquireN_loop.simps)
  next
    case True
    obtain r1 cs1 e1 where acq: "Acquire cs e = (r1, cs1, e1)"
      by (cases "Acquire cs e") auto
    note eff = Acquire_effect [OF "1.prems"(1) acq]
    show ?thesis
    proof (cases r1)
      case (Some err)
      obtain r2 cs2 e2 where rel: "ReleaseN i cs1 e1 = (r2, cs2, e2)"
        by (cases "ReleaseN i cs1 e1") auto
      from eff have inv1: "sem_inv cs1" by simp
      from True acq Some rel "1.prems"(2) have "r = r1" "cs' = cs2"
        by (simp_all add: AcquireN_loop.simps)
      with eff Some True ReleaseN_effect [OF inv1 rel] show ?thesis by auto
    next
      case None
      with True acq "1.prems"(2) have "AcquireN_loop (i + 1) n cs1 e1 = (r, cs', e')"
        by (simp add: AcquireN_loop.simps)
      from "1.IH" [OF True acq [symmetric] None refl _ this] eff None True
      show ?thesis by auto
    qed
  qed
qed

lemma AcquireN_effect:
  assumes "sem_inv cs" "AcquireN n cs e = (r, cs', e')"
  shows "sem_inv cs' \<and> maxPermits cs' = maxPermits cs \<and> timeout cs' = timeout cs \<and>
         currentPermits cs - max 0 n \<le> currentPermits cs' \<and>
         currentPermits cs' \<le> currentPermits cs \<and>
         (r = None \<longrightarrow> currentPermits cs' = currentPermits cs - max 0 n)"
proof (cases "n > maxPermits cs \<or> AvailablePermits cs < n")
  case True
  with assms(2) have "cs' = cs" "r \<noteq> None" by (auto simp: AcquireN_def split: if_splits)
  with assms(1) show ?thesis by auto
next
  case False
  with assms(2) have "AcquireN_loop 0 n cs e = (r, cs', e')" by (simp add: AcquireN_def)
  from AcquireN_loop_effect [OF assms(1) this] show ?thesis by auto
qed

lemma TryAcquire_effect:
  assumes "sem_inv cs" "TryAcquire cs = (b, cs')"
  shows "sem_inv cs' \<and> maxPermits cs' = maxPermits cs \<and> timeout cs' = timeout cs \<and>
         (b \<longrightarrow> currentPermits cs' = currentPermits cs - 1) \<and> (\<not> b \<longrightarrow> cs' = cs)"
  using assms take_token [OF assms(1)] by (auto simp: TryAcquire_def split: if_splits)

section \<open>The constructor\<close>

lemma fill_full:
  "length (buf c) = nat i \<Longrightarrow> 0 \<le> i \<Longrightarrow> i \<le> maxP \<Longrightarrow> cap c = nat maxP \<Longrightarrow>
     fill i maxP c = Some (c\<lparr>buf := replicate (nat maxP) ()\<rparr>)"
proof (induction i maxP c rule: fill.induct)
  case (1 i maxP c)
  show ?case
  proof (cases "i < maxP")
    case False
    with "1.prems" have "i = maxP" by simp
    with "1.prems" have "buf c = replicate (nat maxP) ()"
      by (intro unit_list_eq) simp
    with False show ?thesis by (simp add: fill.simps)
  next
    case True
    with "1.prems" have room: "can_send c" by (simp add: can_send_def)
    have "fill (i + 1) maxP (send c) = Some ((send c)\<lparr>buf := replicate (nat maxP) ()\<rparr>)"
      using "1.prems" True by (intro "1.IH" [OF True room]) (auto simp: send_def nat_add_distrib)
    with True room show ?thesis by (simp add: fill.simps send_def)
  qed
qed

lemma new_state:
  assumes "0 \<le> C"
  shows "NewCountingSemaphore C t =
           Some \<lparr>sem = \<lparr>buf = replicate (nat C) (), cap = nat C\<rparr>,
                 maxPermits = C, currentPermits = C, timeout = t\<rparr>"
proof -
  have "fill 0 C \<lparr>buf = [], cap = nat C\<rparr> = Some \<lparr>buf = replicate (nat C) (), cap = nat C\<rparr>"
    using fill_full [of "\<lparr>buf = [], cap = nat C\<rparr>" 0 C] assms by simp
  with assms show ?thesis by (simp add: NewCountingSemaphore_def make_chan_def)
qed

lemma new_inv:
  assumes "NewCountingSemaphore C t = Some cs" "is_int64 C"
  shows "sem_inv cs \<and> maxPermits cs = C"
proof -
  from assms(1) have "0 \<le> C"
    by (auto simp: NewCountingSemaphore_def make_chan_def split: if_splits)
  from new_state [OF this, of t] assms \<open>0 \<le> C\<close> show ?thesis by (auto simp: sem_inv_def)
qed

section \<open>Runs and loops\<close>

lemma exec_op_inv:
  assumes "sem_inv cs" "exec_op p cs e = (cs', e')"
  shows "sem_inv cs' \<and> maxPermits cs' = maxPermits cs"
proof (cases p)
  case OpAcquire
  with assms(2) obtain r where "Acquire cs e = (r, cs', e')"
    by (cases "Acquire cs e") auto
  from Acquire_effect [OF assms(1) this] show ?thesis by simp
next
  case OpTryAcquire
  with assms(2) obtain b where "TryAcquire cs = (b, cs')"
    by (cases "TryAcquire cs") auto
  from TryAcquire_effect [OF assms(1) this] show ?thesis by simp
next
  case OpRelease
  with assms(2) obtain r where "Release cs e = (r, cs', e')"
    by (cases "Release cs e") auto
  from Release_effect [OF assms(1) this] show ?thesis by simp
next
  case (OpAcquireN n)
  with assms(2) obtain r where "AcquireN n cs e = (r, cs', e')"
    by (cases "AcquireN n cs e") auto
  from AcquireN_effect [OF assms(1) this] show ?thesis by simp
next
  case (OpReleaseN n)
  with assms(2) obtain r where "ReleaseN n cs e = (r, cs', e')"
    by (cases "ReleaseN n cs e") auto
  from ReleaseN_effect [OF assms(1) this] show ?thesis by simp
qed

lemma trace_inv:
  "sem_inv cs \<Longrightarrow> cs' \<in> set (trace ps cs e) \<Longrightarrow>
     sem_inv cs' \<and> maxPermits cs' = maxPermits cs"
proof (induction ps arbitrary: cs e)
  case Nil
  then show ?case by simp
next
  case (Cons p ps)
  obtain cs1 e1 where step: "exec_op p cs e = (cs1, e1)"
    by (cases "exec_op p cs e") auto
  note inv1 = exec_op_inv [OF Cons.prems(1) step]
  from Cons.prems(2) step have "cs' = cs1 \<or> cs' \<in> set (trace ps cs1 e1)" by simp
  then show ?case
  proof
    assume "cs' = cs1"
    with inv1 show ?thesis by simp
  next
    assume "cs' \<in> set (trace ps cs1 e1)"
    with Cons.IH [of cs1 e1] inv1 show ?thesis by simp
  qed
qed

text \<open>
  A loop that has come through its first iterations continues as the loop started there.
\<close>

lemma AcquireN_loop_split:
  "AcquireN_loop j i cs e = (None, cs1, e1) \<Longrightarrow> j \<le> i \<Longrightarrow> i \<le> n \<Longrightarrow>
     AcquireN_loop j n cs e = AcquireN_loop i n cs1 e1"
proof (induction j i cs e rule: AcquireN_loop.induct)
  case (1 j i cs e)
  show ?case
  proof (cases "j < i")
    case False
    with "1.prems" show ?thesis by (simp add: AcquireN_loop.simps [of j i])
  next
    case True
    obtain r1 csa ea where acq: "Acquire cs e = (r1, csa, ea)"
      by (cases "Acquire cs e") auto
    show ?thesis
    proof (cases r1)
      case (Some err)
      with True acq "1.prems"(1) show ?thesis
        by (simp add: AcquireN_loop.simps [of j i] split: prod.splits)
    next
      case None
      with True acq "1.prems"(1) have "AcquireN_loop (j + 1) i csa ea = (None, cs1, e1)"
        by (simp add: AcquireN_loop.simps [of j i])
      from "1.IH" [OF True acq [symmetric] None refl this] True "1.prems"
      have "AcquireN_loop (j + 1) n csa ea = AcquireN_loop i n cs1 e1" by simp
      moreover from True "1.prems" acq None
      have "AcquireN_loop j n cs e = AcquireN_loop (j + 1) n csa ea"
        by (simp add: AcquireN_loop.simps [of j n])
      ultimately show ?thesis by simp
    qed
  qed
qed

lemma ReleaseN_loop_split:
  "ReleaseN_loop j i cs e = (None, cs1, e1) \<Longrightarrow> j \<le> i \<Longrightarrow> i \<le> n \<Longrightarrow>
     ReleaseN_loop j n cs e = ReleaseN_loop i n cs1 e1"
proof (induction j i cs e rule: ReleaseN_loop.induct)
  case (1 j i cs e)
  show ?case
  proof (cases "j < i")
    case False
    with "1.prems" show ?thesis by (simp add: ReleaseN_loop.simps [of j i])
  next
    case True
    obtain r1 csa ea where rel: "Release cs e = (r1, csa, ea)"
      by (cases "Release cs e") auto
    show ?thesis
    proof (cases r1)
      case (Some err)
      with True rel "1.prems"(1) show ?thesis
        by (simp add: ReleaseN_loop.simps [of j i])
    next
      case None
      with True rel "1.prems"(1) have "ReleaseN_loop (j + 1) i csa ea = (None, cs1, e1)"
        by (simp add: ReleaseN_loop.simps [of j i])
      from "1.IH" [OF True rel [symmetric] None refl this] True "1.prems"
      have "ReleaseN_loop (j + 1) n csa ea = ReleaseN_loop i n cs1 e1" by simp
      moreover from True "1.prems" rel None
      have "ReleaseN_loop j n cs e = ReleaseN_loop (j + 1) n csa ea"
        by (simp add: ReleaseN_loop.simps [of j n])
      ultimately show ?thesis by simp
    qed
  qed
qed

lemma ReleaseN_loop_seq:
  "ReleaseN_loop i n cs e = release_seq (nat (n - i)) cs e"
proof (induction i n cs e rule: ReleaseN_loop.induct)
  case (1 i n cs e)
  show ?case
  proof (cases "i < n")
    case False
    then show ?thesis by (simp add: ReleaseN_loop.simps [of i n])
  next
    case True
    then have k: "nat (n - i) = Suc (nat (n - (i + 1)))" by simp
    obtain r1 csa ea where rel: "Release cs e = (r1, csa, ea)"
      by (cases "Release cs e") auto
    show ?thesis
    proof (cases r1)
      case (Some err)
      with True rel show ?thesis
        by (simp add: ReleaseN_loop.simps [of i n] k del: nat_diff_distrib)
    next
      case None
      from "1.IH" [OF True rel [symmetric] None refl] True rel None
      show ?thesis by (simp add: ReleaseN_loop.simps [of i n] k)
    qed
  qed
qed

section \<open>The claims\<close>

subsection \<open>C1: the invariant along every run\<close>

text \<open>
  C1. On a semaphore built by \<open>NewCountingSemaphore C t\<close> (\<open>C\<close> a Go \<open>int\<close>), after each operation of any
  sequence of \<open>Acquire\<close>, \<open>TryAcquire\<close>, \<open>Release\<close>, \<open>AcquireN\<close> and \<open>ReleaseN\<close>
  calls, under any scheduling, \<open>currentPermits\<close> is the number of tokens in the channel and
  lies in \<open>[0, C]\<close>, and so does the value \<open>AvailablePermits\<close> returns. The operations run
  one after the other, each to its end.
\<close>

theorem invariant_after_each_operation:
  assumes "is_int64 C" and "NewCountingSemaphore C t = Some cs0"
  shows "\<forall>cs \<in> set (trace ps cs0 e).
           currentPermits cs = int (length (buf (sem cs))) \<and>
           0 \<le> currentPermits cs \<and> currentPermits cs \<le> C \<and>
           0 \<le> AvailablePermits cs \<and> AvailablePermits cs \<le> C"
proof
  fix cs assume "cs \<in> set (trace ps cs0 e)"
  with new_inv [OF assms(2) assms(1)] trace_inv [of cs0 cs ps e]
  have "sem_inv cs" "maxPermits cs = C" by simp_all
  then show "currentPermits cs = int (length (buf (sem cs))) \<and>
           0 \<le> currentPermits cs \<and> currentPermits cs \<le> C \<and>
           0 \<le> AvailablePermits cs \<and> AvailablePermits cs \<le> C"
    by (auto simp: sem_inv_def AvailablePermits_def)
qed

text \<open>
  A run on the capacity-2 semaphore with timeout 0 whose first \<open>Acquire\<close> times out.
\<close>

theorem invariant_after_each_operation_witness:
  "is_int64 2 \<and>
   NewCountingSemaphore 2 0 =
     Some \<lparr>sem = \<lparr>buf = [(), ()], cap = 2\<rparr>, maxPermits = 2, currentPermits = 2,
           timeout = 0\<rparr> \<and>
   length (trace [OpAcquire, OpAcquireN 2, OpTryAcquire, OpRelease, OpReleaseN 1]
        \<lparr>sem = \<lparr>buf = [(), ()], cap = 2\<rparr>, maxPermits = 2, currentPermits = 2, timeout = 0\<rparr>
        \<lparr>clock = 0, pending = [\<lparr>pick = TimerCase, lag = 0\<rparr>]\<rparr>) = 5 \<and>
   list_all
     (\<lambda>cs. currentPermits cs = int (length (buf (sem cs))) \<and>
           0 \<le> currentPermits cs \<and> currentPermits cs \<le> 2 \<and>
           0 \<le> AvailablePermits cs \<and> AvailablePermits cs \<le> 2)
     (trace [OpAcquire, OpAcquireN 2, OpTryAcquire, OpRelease, OpReleaseN 1]
        \<lparr>sem = \<lparr>buf = [(), ()], cap = 2\<rparr>, maxPermits = 2, currentPermits = 2, timeout = 0\<rparr>
        \<lparr>clock = 0, pending = [\<lparr>pick = TimerCase, lag = 0\<rparr>]\<rparr>)"
proof -
  have a: "is_int64 2" by (simp add: is_int64_def)
  have b: "NewCountingSemaphore 2 0 =
     Some \<lparr>sem = \<lparr>buf = [(), ()], cap = 2\<rparr>, maxPermits = 2, currentPermits = 2,
           timeout = 0\<rparr>"
    using new_state [of 2 0] by (simp add: numeral_2_eq_2)
  have c: "length (trace [OpAcquire, OpAcquireN 2, OpTryAcquire, OpRelease, OpReleaseN 1]
        \<lparr>sem = \<lparr>buf = [(), ()], cap = 2\<rparr>, maxPermits = 2, currentPermits = 2, timeout = 0\<rparr>
        \<lparr>clock = 0, pending = [\<lparr>pick = TimerCase, lag = 0\<rparr>]\<rparr>) = 5"
    by (simp split: prod.splits)
  have d: "list_all
     (\<lambda>cs. currentPermits cs = int (length (buf (sem cs))) \<and>
           0 \<le> currentPermits cs \<and> currentPermits cs \<le> 2 \<and>
           0 \<le> AvailablePermits cs \<and> AvailablePermits cs \<le> 2)
     (trace [OpAcquire, OpAcquireN 2, OpTryAcquire, OpRelease, OpReleaseN 1]
        \<lparr>sem = \<lparr>buf = [(), ()], cap = 2\<rparr>, maxPermits = 2, currentPermits = 2, timeout = 0\<rparr>
        \<lparr>clock = 0, pending = [\<lparr>pick = TimerCase, lag = 0\<rparr>]\<rparr>)"
    unfolding list_all_iff by (rule invariant_after_each_operation [OF a b])
  from a b c d show ?thesis by (intro conjI)
qed

subsection \<open>C2: a new semaphore is fully loaded\<close>

text \<open>
  C2. For every positive capacity \<open>C\<close> and every timeout \<open>t\<close>, the constructor returns a
  semaphore whose channel holds \<open>C\<close> tokens and whose \<open>currentPermits\<close> is \<open>C\<close>, so that
  \<open>AvailablePermits\<close> on it returns \<open>C\<close>.
\<close>

theorem new_fully_loaded:
  "0 < C \<Longrightarrow>
     NewCountingSemaphore C t =
       Some \<lparr>sem = \<lparr>buf = replicate (nat C) (), cap = nat C\<rparr>,
             maxPermits = C, currentPermits = C, timeout = t\<rparr> \<and>
     map_option AvailablePermits (NewCountingSemaphore C t) = Some C"
  using new_state [of C t] by (simp add: AvailablePermits_def)

text \<open>
  The semaphore of the demonstration program: capacity 2, timeout 5 seconds.
\<close>

theorem new_fully_loaded_witness:
  "NewCountingSemaphore 2 5000000000 =
     Some \<lparr>sem = \<lparr>buf = [(), ()], cap = 2\<rparr>,
           maxPermits = 2, currentPermits = 2, timeout = 5000000000\<rparr> \<and>
   map_option AvailablePermits (NewCountingSemaphore 2 5000000000) = Some 2"
  using new_fully_loaded [of 2 5000000000] by (auto simp: numeral_2_eq_2)

subsection \<open>C3: acquiring and releasing \<open>n\<close> permits\<close>

text \<open>
  C3, as amended. In a state that satisfies the invariant and for \<open>0 \<le> n\<close>, when
  \<open>AcquireN n\<close> returns without error and the \<open>ReleaseN n\<close> that follows it returns without
  error too, \<open>AvailablePermits\<close> is back at its value before the \<open>AcquireN\<close>; the whole state
  is. That \<open>ReleaseN n\<close> does return without error whenever the scheduling that remains is
  punctual for the semaphore's timeout.
\<close>

theorem roundtrip_when_release_succeeds:
  assumes "sem_inv cs" and "0 \<le> n"
    and "AcquireN n cs e = (None, cs1, e1)"
  shows "(fst (ReleaseN n cs1 e1) = None \<longrightarrow>
            AvailablePermits (fst (snd (ReleaseN n cs1 e1))) = AvailablePermits cs \<and>
            fst (snd (ReleaseN n cs1 e1)) = cs) \<and>
         (punctual (timeout cs) e1 \<longrightarrow> fst (ReleaseN n cs1 e1) = None)"
proof -
  note a = AcquireN_effect [OF assms(1) assms(3)]
  then have inv1: "sem_inv cs1" by simp
  obtain r cs2 e2 where rel: "ReleaseN n cs1 e1 = (r, cs2, e2)"
    by (cases "ReleaseN n cs1 e1") auto
  note f = ReleaseN_effect [OF inv1 rel]
  have restored: "r = None \<longrightarrow> cs2 = cs"
  proof
    assume "r = None"
    with a f assms(2) have "currentPermits cs2 = currentPermits cs" by simp
    with a f assms(1) show "cs2 = cs" by (intro sem_inv_eqI) simp_all
  qed
  have "fst (ReleaseN n cs1 e1) = None" if "punctual (timeout cs) e1"
  proof (rule ReleaseN_punctual [OF inv1])
    from a assms(2) outstanding_int64 [OF assms(1)]
    show "n \<le> maxPermits cs1 - currentPermits cs1" by simp
    from a that show "punctual (timeout cs1) e1" by simp
  qed
  with restored rel show ?thesis by simp
qed

text \<open>
  The demonstration program's \<open>AcquireN(2)\<close>, \<open>ReleaseN(2)\<close>, the first \<open>select\<close> reached
  40 nanoseconds late.
\<close>

theorem roundtrip_when_release_succeeds_witness:
  "sem_inv \<lparr>sem = \<lparr>buf = [(), ()], cap = 2\<rparr>, maxPermits = 2, currentPermits = 2,
            timeout = 5000000000\<rparr> \<and>
   AcquireN 2
     \<lparr>sem = \<lparr>buf = [(), ()], cap = 2\<rparr>, maxPermits = 2, currentPermits = 2,
        timeout = 5000000000\<rparr>
     \<lparr>clock = 0, pending = [\<lparr>pick = TimerCase, lag = 40\<rparr>]\<rparr> =
     (None,
      \<lparr>sem = \<lparr>buf = [], cap = 2\<rparr>, maxPermits = 2, currentPermits = 0, timeout = 5000000000\<rparr>,
      \<lparr>clock = 40, pending = []\<rparr>) \<and>
   punctual 5000000000 \<lparr>clock = 40, pending = []\<rparr> \<and>
   fst (ReleaseN 2
     \<lparr>sem = \<lparr>buf = [], cap = 2\<rparr>, maxPermits = 2, currentPermits = 0, timeout = 5000000000\<rparr>
     \<lparr>clock = 40, pending = []\<rparr>) = None \<and>
   AvailablePermits
     (fst (snd (ReleaseN 2
        \<lparr>sem = \<lparr>buf = [], cap = 2\<rparr>, maxPermits = 2, currentPermits = 0,
           timeout = 5000000000\<rparr>
        \<lparr>clock = 40, pending = []\<rparr>))) =
   AvailablePermits
     \<lparr>sem = \<lparr>buf = [(), ()], cap = 2\<rparr>, maxPermits = 2, currentPermits = 2,
        timeout = 5000000000\<rparr>"
proof -
  let ?full = "\<lparr>sem = \<lparr>buf = [(), ()], cap = 2\<rparr>, maxPermits = 2, currentPermits = 2,
                timeout = 5000000000\<rparr>"
  let ?none = "\<lparr>sem = \<lparr>buf = [], cap = 2\<rparr>, maxPermits = 2, currentPermits = 0,
                timeout = 5000000000\<rparr>"
  let ?e = "\<lparr>clock = 0, pending = [\<lparr>pick = TimerCase, lag = 40\<rparr>]\<rparr>"
  let ?e1 = "\<lparr>clock = 40, pending = []\<rparr>"
  have inv: "sem_inv ?full" by (simp add: sem_inv_def is_int64_def)
  have acq: "AcquireN 2 ?full ?e = (None, ?none, ?e1)"
    by (simp add: AcquireN_def AvailablePermits_def AcquireN_loop.simps Acquire_def
        select_timeout_def timer_wins_def next_sched_def prompt_def can_recv_def recv_def
        int64_def)
  have p: "punctual 5000000000 ?e1" by (simp add: punctual_def)
  from roundtrip_when_release_succeeds [OF inv _ acq] p
  have "fst (ReleaseN 2 ?none ?e1) = None \<and>
        AvailablePermits (fst (snd (ReleaseN 2 ?none ?e1))) = AvailablePermits ?full"
    by simp
  with inv acq p show ?thesis by simp
qed

text \<open>
  C3 as stated fails: with timeout 0 the timer of a \<open>Release\<close> is due when its \<open>select\<close>
  is reached, and \<open>select\<close> may choose it although the channel has room. After a successful
  \<open>AcquireN 1\<close> on the full capacity-1 semaphore, \<open>ReleaseN 1\<close> then returns the timeout
  error and \<open>AvailablePermits\<close> stays at 0, not 1.
\<close>

theorem roundtrip_counterexample:
  "sem_inv \<lparr>sem = \<lparr>buf = [()], cap = 1\<rparr>, maxPermits = 1, currentPermits = 1, timeout = 0\<rparr> \<and>
   AcquireN 1
     \<lparr>sem = \<lparr>buf = [()], cap = 1\<rparr>, maxPermits = 1, currentPermits = 1, timeout = 0\<rparr>
     \<lparr>clock = 0, pending = [\<lparr>pick = ChanCase, lag = 0\<rparr>, \<lparr>pick = TimerCase, lag = 0\<rparr>]\<rparr> =
     (None,
      \<lparr>sem = \<lparr>buf = [], cap = 1\<rparr>, maxPermits = 1, currentPermits = 0, timeout = 0\<rparr>,
      \<lparr>clock = 0, pending = [\<lparr>pick = TimerCase, lag = 0\<rparr>]\<rparr>) \<and>
   ReleaseN 1
     \<lparr>sem = \<lparr>buf = [], cap = 1\<rparr>, maxPermits = 1, currentPermits = 0, timeout = 0\<rparr>
     \<lparr>clock = 0, pending = [\<lparr>pick = TimerCase, lag = 0\<rparr>]\<rparr> =
     (Some ReleaseTimeout,
      \<lparr>sem = \<lparr>buf = [], cap = 1\<rparr>, maxPermits = 1, currentPermits = 0, timeout = 0\<rparr>,
      \<lparr>clock = 0, pending = []\<rparr>) \<and>
   AvailablePermits
     \<lparr>sem = \<lparr>buf = [], cap = 1\<rparr>, maxPermits = 1, currentPermits = 0, timeout = 0\<rparr> \<noteq>
   AvailablePermits
     \<lparr>sem = \<lparr>buf = [()], cap = 1\<rparr>, maxPermits = 1, currentPermits = 1, timeout = 0\<rparr>"
  by (simp add: sem_inv_def is_int64_def AcquireN_def ReleaseN_def AvailablePermits_def
      AcquireN_loop.simps ReleaseN_loop.simps Acquire_def Release_def select_timeout_def timer_wins_def
      next_sched_def can_recv_def can_send_def recv_def send_def int64_def)

subsection \<open>C4: \<open>Acquire\<close> on an empty semaphore\<close>

text \<open>
  C4. When the channel holds no token, \<open>Acquire\<close> returns the timeout error of
  \<open>Acquire\<close>, leaves the semaphore as it was, and returns no earlier than \<open>timeout\<close> after
  it was called.
\<close>

theorem acquire_on_empty_times_out:
  "buf (sem cs) = [] \<Longrightarrow>
     fst (Acquire cs e) = Some AcquireTimeout \<and>
     map_option kind (fst (Acquire cs e)) = Some TimeoutError \<and>
     fst (snd (Acquire cs e)) = cs \<and>
     clock e + timeout cs \<le> clock (snd (snd (Acquire cs e)))"
proof -
  assume empty: "buf (sem cs) = []"
  obtain r cs' e' where acq: "Acquire cs e = (r, cs', e')"
    by (cases "Acquire cs e") auto
  from Acquire_cases [OF acq] empty acq show ?thesis
    by (auto simp: can_recv_def)
qed

text \<open>
  An emptied capacity-2 semaphore with a timeout of 5 seconds, called at time 7.
\<close>

theorem acquire_on_empty_times_out_witness:
  "fst (Acquire \<lparr>sem = \<lparr>buf = [], cap = 2\<rparr>, maxPermits = 2, currentPermits = 0,
                 timeout = 5000000000\<rparr> \<lparr>clock = 7, pending = []\<rparr>) = Some AcquireTimeout \<and>
   fst (snd (Acquire \<lparr>sem = \<lparr>buf = [], cap = 2\<rparr>, maxPermits = 2, currentPermits = 0,
                 timeout = 5000000000\<rparr> \<lparr>clock = 7, pending = []\<rparr>)) =
     \<lparr>sem = \<lparr>buf = [], cap = 2\<rparr>, maxPermits = 2, currentPermits = 0,
                 timeout = 5000000000\<rparr> \<and>
   5000000007 \<le> clock (snd (snd (Acquire \<lparr>sem = \<lparr>buf = [], cap = 2\<rparr>, maxPermits = 2,
                 currentPermits = 0, timeout = 5000000000\<rparr> \<lparr>clock = 7, pending = []\<rparr>)))"
  using acquire_on_empty_times_out
    [of "\<lparr>sem = \<lparr>buf = [], cap = 2\<rparr>, maxPermits = 2, currentPermits = 0,
          timeout = 5000000000\<rparr>" "\<lparr>clock = 7, pending = []\<rparr>"]
  by simp

subsection \<open>C5: \<open>TryAcquire\<close>\<close>

text \<open>
  C5. \<open>TryAcquire\<close> depends on the semaphore only (it takes no scheduler input and no
  time passes). In a state that satisfies the invariant: when the channel holds a token,
  one token is removed, \<open>currentPermits\<close> goes down by one and the result is \<open>True\<close>; when
  it holds none, the result is \<open>False\<close> and the state is unchanged. On the semaphore
  returned by \<open>NewCountingSemaphore 2 t\<close>, three calls in a row return \<open>True\<close>, \<open>True\<close>,
  \<open>False\<close>.
\<close>

theorem try_acquire_behaviour:
  "sem_inv cs \<Longrightarrow>
     (buf (sem cs) \<noteq> [] \<longrightarrow>
        TryAcquire cs =
          (True, cs\<lparr>sem := (sem cs)\<lparr>buf := tl (buf (sem cs))\<rparr>,
                    currentPermits := currentPermits cs - 1\<rparr>)) \<and>
     (buf (sem cs) = [] \<longrightarrow> TryAcquire cs = (False, cs)) \<and>
     (NewCountingSemaphore 2 t =
        Some \<lparr>sem = \<lparr>buf = [(), ()], cap = 2\<rparr>, maxPermits = 2, currentPermits = 2,
              timeout = t\<rparr> \<and>
      TryAcquire \<lparr>sem = \<lparr>buf = [(), ()], cap = 2\<rparr>, maxPermits = 2, currentPermits = 2,
                  timeout = t\<rparr> =
        (True, \<lparr>sem = \<lparr>buf = [()], cap = 2\<rparr>, maxPermits = 2, currentPermits = 1,
                  timeout = t\<rparr>) \<and>
      TryAcquire \<lparr>sem = \<lparr>buf = [()], cap = 2\<rparr>, maxPermits = 2, currentPermits = 1,
                  timeout = t\<rparr> =
        (True, \<lparr>sem = \<lparr>buf = [], cap = 2\<rparr>, maxPermits = 2, currentPermits = 0,
                  timeout = t\<rparr>) \<and>
      TryAcquire \<lparr>sem = \<lparr>buf = [], cap = 2\<rparr>, maxPermits = 2, currentPermits = 0,
                  timeout = t\<rparr> =
        (False, \<lparr>sem = \<lparr>buf = [], cap = 2\<rparr>, maxPermits = 2, currentPermits = 0,
                  timeout = t\<rparr>))"
proof -
  assume inv: "sem_inv cs"
  have general: "buf (sem cs) \<noteq> [] \<longrightarrow>
        TryAcquire cs =
          (True, cs\<lparr>sem := (sem cs)\<lparr>buf := tl (buf (sem cs))\<rparr>,
                    currentPermits := currentPermits cs - 1\<rparr>)"
    using take_token [OF inv] by (auto simp: TryAcquire_def can_recv_def recv_def)
  have empty: "buf (sem cs) = [] \<longrightarrow> TryAcquire cs = (False, cs)"
    by (simp add: TryAcquire_def can_recv_def)
  have new: "NewCountingSemaphore 2 t =
        Some \<lparr>sem = \<lparr>buf = [(), ()], cap = 2\<rparr>, maxPermits = 2, currentPermits = 2,
              timeout = t\<rparr>"
    using new_state [of 2 t] by (simp add: numeral_2_eq_2)
  have run: "TryAcquire \<lparr>sem = \<lparr>buf = [(), ()], cap = 2\<rparr>, maxPermits = 2, currentPermits = 2,
                  timeout = t\<rparr> =
        (True, \<lparr>sem = \<lparr>buf = [()], cap = 2\<rparr>, maxPermits = 2, currentPermits = 1,
                  timeout = t\<rparr>)"
    "TryAcquire \<lparr>sem = \<lparr>buf = [()], cap = 2\<rparr>, maxPermits = 2, currentPermits = 1,
                  timeout = t\<rparr> =
        (True, \<lparr>sem = \<lparr>buf = [], cap = 2\<rparr>, maxPermits = 2, currentPermits = 0,
                  timeout = t\<rparr>)"
    "TryAcquire \<lparr>sem = \<lparr>buf = [], cap = 2\<rparr>, maxPermits = 2, currentPermits = 0,
                  timeout = t\<rparr> =
        (False, \<lparr>sem = \<lparr>buf = [], cap = 2\<rparr>, maxPermits = 2, currentPermits = 0,
                  timeout = t\<rparr>)"
    by (simp_all add: TryAcquire_def can_recv_def recv_def int64_def)
  from general empty new run show ?thesis by simp
qed

text \<open>
  A capacity-3 semaphore with two tokens, and the same semaphore with none.
\<close>

theorem try_acquire_behaviour_witness:
  "sem_inv \<lparr>sem = \<lparr>buf = [(), ()], cap = 3\<rparr>, maxPermits = 3, currentPermits = 2,
            timeout = 10\<rparr> \<and>
   TryAcquire \<lparr>sem = \<lparr>buf = [(), ()], cap = 3\<rparr>, maxPermits = 3, currentPermits = 2,
               timeout = 10\<rparr> =
     (True, \<lparr>sem = \<lparr>buf = [()], cap = 3\<rparr>, maxPermits = 3, currentPermits = 1,
               timeout = 10\<rparr>) \<and>
   sem_inv \<lparr>sem = \<lparr>buf = [], cap = 3\<rparr>, maxPermits = 3, currentPermits = 0,
            timeout = 10\<rparr> \<and>
   TryAcquire \<lparr>sem = \<lparr>buf = [], cap = 3\<rparr>, maxPermits = 3, currentPermits = 0,
               timeout = 10\<rparr> =
     (False, \<lparr>sem = \<lparr>buf = [], cap = 3\<rparr>, maxPermits = 3, currentPermits = 0,
               timeout = 10\<rparr>)"
proof -
  have a: "sem_inv \<lparr>sem = \<lparr>buf = [(), ()], cap = 3\<rparr>, maxPermits = 3, currentPermits = 2,
            timeout = 10\<rparr>"
    and b: "sem_inv \<lparr>sem = \<lparr>buf = [], cap = 3\<rparr>, maxPermits = 3, currentPermits = 0,
            timeout = 10\<rparr>"
    by (simp_all add: sem_inv_def is_int64_def)
  from try_acquire_behaviour [OF a] try_acquire_behaviour [OF b] a b
  show ?thesis by simp
qed

subsection \<open>C6: \<open>AcquireN\<close> of more than \<open>maxPermits\<close>\<close>

text \<open>
  C6. For \<open>n > maxPermits\<close>, \<open>AcquireN n\<close> returns the error of its first check (an
  invalid request) with the semaphore, the clock and the scheduler input untouched: no
  \<open>Acquire\<close> is attempted.
\<close>

theorem acquire_n_too_many:
  "maxPermits cs < n \<Longrightarrow>
     AcquireN n cs e = (Some (TooManyRequested n (maxPermits cs)), cs, e) \<and>
     kind (TooManyRequested n (maxPermits cs)) = InvalidRequest"
  by (simp add: AcquireN_def)

text \<open>
  Three permits asked of a capacity-2 semaphore.
\<close>

theorem acquire_n_too_many_witness:
  "AcquireN 3 \<lparr>sem = \<lparr>buf = [(), ()], cap = 2\<rparr>, maxPermits = 2, currentPermits = 2,
               timeout = 5000000000\<rparr> \<lparr>clock = 0, pending = [\<lparr>pick = TimerCase, lag = 9\<rparr>]\<rparr> =
     (Some (TooManyRequested 3 2),
      \<lparr>sem = \<lparr>buf = [(), ()], cap = 2\<rparr>, maxPermits = 2, currentPermits = 2,
               timeout = 5000000000\<rparr>, \<lparr>clock = 0, pending = [\<lparr>pick = TimerCase, lag = 9\<rparr>]\<rparr>)"
  using acquire_n_too_many
    [of "\<lparr>sem = \<lparr>buf = [(), ()], cap = 2\<rparr>, maxPermits = 2, currentPermits = 2,
          timeout = 5000000000\<rparr>" 3 "\<lparr>clock = 0, pending = [\<lparr>pick = TimerCase, lag = 9\<rparr>]\<rparr>"]
  by simp

subsection \<open>C7: \<open>AcquireN\<close> of more than is available\<close>

text \<open>
  C7. For \<open>n \<le> maxPermits\<close>, when \<open>AvailablePermits\<close> is below \<open>n\<close>, \<open>AcquireN n\<close>
  returns the error of its second check (insufficient permits) with the semaphore, the
  clock and the scheduler input untouched: no \<open>Acquire\<close> is attempted.
\<close>

theorem acquire_n_insufficient:
  "n \<le> maxPermits cs \<Longrightarrow> AvailablePermits cs < n \<Longrightarrow>
     AcquireN n cs e = (Some (NotEnoughPermits (AvailablePermits cs) n), cs, e) \<and>
     kind (NotEnoughPermits (AvailablePermits cs) n) = InsufficientPermits"
  by (simp add: AcquireN_def)

text \<open>
  Two permits asked of a capacity-2 semaphore that has one.
\<close>

theorem acquire_n_insufficient_witness:
  "AcquireN 2 \<lparr>sem = \<lparr>buf = [()], cap = 2\<rparr>, maxPermits = 2, currentPermits = 1,
               timeout = 5000000000\<rparr> \<lparr>clock = 0, pending = [\<lparr>pick = TimerCase, lag = 9\<rparr>]\<rparr> =
     (Some (NotEnoughPermits 1 2),
      \<lparr>sem = \<lparr>buf = [()], cap = 2\<rparr>, maxPermits = 2, currentPermits = 1,
               timeout = 5000000000\<rparr>, \<lparr>clock = 0, pending = [\<lparr>pick = TimerCase, lag = 9\<rparr>]\<rparr>)"
  using acquire_n_insufficient
    [of 2 "\<lparr>sem = \<lparr>buf = [()], cap = 2\<rparr>, maxPermits = 2, currentPermits = 1,
          timeout = 5000000000\<rparr>" "\<lparr>clock = 0, pending = [\<lparr>pick = TimerCase, lag = 9\<rparr>]\<rparr>"]
  by (simp add: AvailablePermits_def)

subsection \<open>C8: a timeout inside \<open>AcquireN\<close>\<close>

text \<open>
  C8, as amended. In a state that satisfies the invariant, let both checks of
  \<open>AcquireN n\<close> pass, let the first \<open>i\<close> acquires succeed (\<open>0 \<le> i < n\<close>; they are what
  \<open>AcquireN i\<close> does) and let the next \<open>Acquire\<close> fail. Then the failure is the timeout of
  \<open>Acquire\<close>, \<open>AcquireN n\<close> calls \<open>ReleaseN i\<close> on the state with \<open>i\<close> permits taken, drops
  its result and returns the timeout error with the state \<open>ReleaseN i\<close> left.
  \<open>AvailablePermits\<close> ends between its value before the call minus \<open>i\<close> and that value, and
  the state is the one before the call when \<open>ReleaseN i\<close> returned without error, which it
  does whenever the scheduling that remains is punctual for the semaphore's timeout.
\<close>

theorem acquire_n_rollback:
  assumes inv: "sem_inv cs"
    and i: "0 \<le> i" "i < n"
    and passed: "n \<le> maxPermits cs" "n \<le> AvailablePermits cs"
    and acq_i: "AcquireN i cs e = (None, cs1, e1)"
    and acq_fail: "Acquire cs1 e1 = (Some err, cs2, e2)"
  shows "AcquireN n cs e = (Some err, snd (ReleaseN i cs2 e2)) \<and>
         err = AcquireTimeout \<and> kind err = TimeoutError \<and> cs2 = cs1 \<and>
         AvailablePermits cs1 = AvailablePermits cs - i \<and>
         AvailablePermits cs - i \<le> AvailablePermits (fst (snd (AcquireN n cs e))) \<and>
         AvailablePermits (fst (snd (AcquireN n cs e))) \<le> AvailablePermits cs \<and>
         (fst (ReleaseN i cs2 e2) = None \<longrightarrow> fst (snd (AcquireN n cs e)) = cs) \<and>
         (punctual (timeout cs) e2 \<longrightarrow> fst (ReleaseN i cs2 e2) = None)"
proof -
  from i passed have pre: "\<not> i > maxPermits cs" "\<not> AvailablePermits cs < i"
    "\<not> n > maxPermits cs" "\<not> AvailablePermits cs < n" by simp_all
  with acq_i have loop_i: "AcquireN_loop 0 i cs e = (None, cs1, e1)"
    by (simp add: AcquireN_def)
  from AcquireN_loop_split [OF loop_i, of n] i
  have "AcquireN_loop 0 n cs e = AcquireN_loop i n cs1 e1" by simp
  with pre have "AcquireN n cs e = AcquireN_loop i n cs1 e1" by (simp add: AcquireN_def)
  with i acq_fail have res: "AcquireN n cs e = (Some err, snd (ReleaseN i cs2 e2))"
    by (simp add: AcquireN_loop.simps [of i n] split: prod.splits)
  note e1 = AcquireN_effect [OF inv acq_i]
  then have inv1: "sem_inv cs1" by simp
  note e2 = Acquire_effect [OF inv1 acq_fail]
  then have same: "cs2 = cs1" and err: "err = AcquireTimeout" by simp_all
  obtain r3 cs3 e3 where rel: "ReleaseN i cs2 e2 = (r3, cs3, e3)"
    by (cases "ReleaseN i cs2 e2") auto
  from inv1 same have inv2: "sem_inv cs2" by simp
  note e3 = ReleaseN_effect [OF inv2 rel]
  have cur1: "currentPermits cs1 = currentPermits cs - i" using e1 i by simp
  have restored: "r3 = None \<longrightarrow> cs3 = cs"
  proof
    assume "r3 = None"
    with e3 same cur1 i have "currentPermits cs3 = currentPermits cs" by simp
    with e1 e3 same inv show "cs3 = cs" by (intro sem_inv_eqI) simp_all
  qed
  have "fst (ReleaseN i cs2 e2) = None" if "punctual (timeout cs) e2"
  proof (rule ReleaseN_punctual [OF inv2])
    from cur1 same i outstanding_int64 [OF inv] e1
    show "i \<le> maxPermits cs2 - currentPermits cs2" by simp
    from e1 same that show "punctual (timeout cs2) e2" by simp
  qed
  with res rel same err cur1 e3 i restored show ?thesis
    by (simp add: AvailablePermits_def)
qed

text \<open>
  \<open>AcquireN 2\<close> on the full capacity-2 semaphore with timeout 0: the second \<open>Acquire\<close>
  times out and the release of the first permit goes through.
\<close>

theorem acquire_n_rollback_witness:
  "sem_inv \<lparr>sem = \<lparr>buf = [(), ()], cap = 2\<rparr>, maxPermits = 2, currentPermits = 2,
            timeout = 0\<rparr> \<and>
   AcquireN 1
     \<lparr>sem = \<lparr>buf = [(), ()], cap = 2\<rparr>, maxPermits = 2, currentPermits = 2, timeout = 0\<rparr>
     \<lparr>clock = 0, pending = [\<lparr>pick = ChanCase, lag = 0\<rparr>, \<lparr>pick = TimerCase, lag = 0\<rparr>,
                             \<lparr>pick = ChanCase, lag = 0\<rparr>]\<rparr> =
     (None,
      \<lparr>sem = \<lparr>buf = [()], cap = 2\<rparr>, maxPermits = 2, currentPermits = 1, timeout = 0\<rparr>,
      \<lparr>clock = 0, pending = [\<lparr>pick = TimerCase, lag = 0\<rparr>, \<lparr>pick = ChanCase, lag = 0\<rparr>]\<rparr>) \<and>
   Acquire
     \<lparr>sem = \<lparr>buf = [()], cap = 2\<rparr>, maxPermits = 2, currentPermits = 1, timeout = 0\<rparr>
     \<lparr>clock = 0, pending = [\<lparr>pick = TimerCase, lag = 0\<rparr>, \<lparr>pick = ChanCase, lag = 0\<rparr>]\<rparr> =
     (Some AcquireTimeout,
      \<lparr>sem = \<lparr>buf = [()], cap = 2\<rparr>, maxPermits = 2, currentPermits = 1, timeout = 0\<rparr>,
      \<lparr>clock = 0, pending = [\<lparr>pick = ChanCase, lag = 0\<rparr>]\<rparr>) \<and>
   AcquireN 2
     \<lparr>sem = \<lparr>buf = [(), ()], cap = 2\<rparr>, maxPermits = 2, currentPermits = 2, timeout = 0\<rparr>
     \<lparr>clock = 0, pending = [\<lparr>pick = ChanCase, lag = 0\<rparr>, \<lparr>pick = TimerCase, lag = 0\<rparr>,
                             \<lparr>pick = ChanCase, lag = 0\<rparr>]\<rparr> =
     (Some AcquireTimeout,
      \<lparr>sem = \<lparr>buf = [(), ()], cap = 2\<rparr>, maxPermits = 2, currentPermits = 2, timeout = 0\<rparr>,
      \<lparr>clock = 0, pending = []\<rparr>)"
proof -
  let ?cs = "\<lparr>sem = \<lparr>buf = [(), ()], cap = 2\<rparr>, maxPermits = 2, currentPermits = 2,
              timeout = 0\<rparr>"
  let ?cs1 = "\<lparr>sem = \<lparr>buf = [()], cap = 2\<rparr>, maxPermits = 2, currentPermits = 1,
               timeout = 0\<rparr>"
  let ?e = "\<lparr>clock = 0, pending = [\<lparr>pick = ChanCase, lag = 0\<rparr>,
             \<lparr>pick = TimerCase, lag = 0\<rparr>, \<lparr>pick = ChanCase, lag = 0\<rparr>]\<rparr>"
  let ?e1 = "\<lparr>clock = 0, pending = [\<lparr>pick = TimerCase, lag = 0\<rparr>,
              \<lparr>pick = ChanCase, lag = 0\<rparr>]\<rparr>"
  let ?e2 = "\<lparr>clock = 0, pending = [\<lparr>pick = ChanCase, lag = 0\<rparr>]\<rparr>"
  have inv: "sem_inv ?cs" by (simp add: sem_inv_def is_int64_def)
  have passed: "2 \<le> maxPermits ?cs" "2 \<le> AvailablePermits ?cs"
    by (simp_all add: AvailablePermits_def)
  have acq_i: "AcquireN 1 ?cs ?e = (None, ?cs1, ?e1)"
    by (simp add: AcquireN_def AvailablePermits_def AcquireN_loop.simps Acquire_def
        select_timeout_def timer_wins_def next_sched_def can_recv_def recv_def int64_def)
  have acq_fail: "Acquire ?cs1 ?e1 = (Some AcquireTimeout, ?cs1, ?e2)"
    by (simp add: Acquire_def select_timeout_def timer_wins_def next_sched_def can_recv_def)
  have rel: "ReleaseN 1 ?cs1 ?e2 = (None, ?cs, \<lparr>clock = 0, pending = []\<rparr>)"
    by (simp add: ReleaseN_def ReleaseN_loop.simps Release_def
        select_timeout_def timer_wins_def next_sched_def can_send_def send_def int64_def)
  from acquire_n_rollback [OF inv _ _ passed acq_i acq_fail] rel
  have "AcquireN 2 ?cs ?e = (Some AcquireTimeout, ?cs, \<lparr>clock = 0, pending = []\<rparr>)"
    by simp
  with inv acq_i acq_fail show ?thesis by simp
qed

text \<open>
  C8 as stated fails: in the same situation the \<open>Release\<close> inside \<open>ReleaseN 1\<close> can time
  out as well. Its error is dropped, and \<open>AcquireN 2\<close> returns with one permit still
  taken: \<open>AvailablePermits\<close> is 1, not 2.
\<close>

theorem acquire_n_rollback_counterexample:
  "sem_inv \<lparr>sem = \<lparr>buf = [(), ()], cap = 2\<rparr>, maxPermits = 2, currentPermits = 2,
            timeout = 0\<rparr> \<and>
   AcquireN 2
     \<lparr>sem = \<lparr>buf = [(), ()], cap = 2\<rparr>, maxPermits = 2, currentPermits = 2, timeout = 0\<rparr>
     \<lparr>clock = 0, pending = [\<lparr>pick = ChanCase, lag = 0\<rparr>, \<lparr>pick = TimerCase, lag = 0\<rparr>,
                             \<lparr>pick = TimerCase, lag = 0\<rparr>]\<rparr> =
     (Some AcquireTimeout,
      \<lparr>sem = \<lparr>buf = [()], cap = 2\<rparr>, maxPermits = 2, currentPermits = 1, timeout = 0\<rparr>,
      \<lparr>clock = 0, pending = []\<rparr>) \<and>
   AvailablePermits
     \<lparr>sem = \<lparr>buf = [()], cap = 2\<rparr>, maxPermits = 2, currentPermits = 1, timeout = 0\<rparr> \<noteq>
   AvailablePermits
     \<lparr>sem = \<lparr>buf = [(), ()], cap = 2\<rparr>, maxPermits = 2, currentPermits = 2, timeout = 0\<rparr>"
  by (simp add: sem_inv_def is_int64_def AcquireN_def ReleaseN_def AvailablePermits_def
      AcquireN_loop.simps ReleaseN_loop.simps Acquire_def Release_def select_timeout_def timer_wins_def
      next_sched_def can_recv_def can_send_def recv_def send_def int64_def)

subsection \<open>C9: \<open>ReleaseN\<close>\<close>

text \<open>
  C9. In a state that satisfies the invariant: when \<open>n\<close> exceeds
  \<open>maxPermits - currentPermits\<close>, \<open>ReleaseN n\<close> returns the error of its check (an invalid
  request) and changes nothing; otherwise it does what \<open>n\<close> \<open>Release\<close> calls in a row do,
  stopping at the first that fails. When \<open>j < n\<close> releases have succeeded and the next one
  fails, the failure is the timeout of \<open>Release\<close>, it is what \<open>ReleaseN n\<close> returns, and the
  \<open>j\<close> permits stay released: the state returned has \<open>j\<close> more tokens and
  \<open>AvailablePermits\<close> is up by \<open>j\<close>.
\<close>

theorem release_n_behaviour:
  assumes inv: "sem_inv cs"
  shows "(maxPermits cs - currentPermits cs < n \<longrightarrow>
            ReleaseN n cs e =
              (Some (TooManyReleased n (maxPermits cs - currentPermits cs)), cs, e) \<and>
            kind (TooManyReleased n (maxPermits cs - currentPermits cs)) = InvalidRequest) \<and>
         (n \<le> maxPermits cs - currentPermits cs \<longrightarrow>
            ReleaseN n cs e = release_seq (nat n) cs e) \<and>
         (n \<le> maxPermits cs - currentPermits cs \<and> 0 \<le> j \<and> j < n \<and>
          ReleaseN j cs e = (None, cs1, e1) \<and> Release cs1 e1 = (Some err, cs2, e2) \<longrightarrow>
            ReleaseN n cs e = (Some err, cs1, e2) \<and> err = ReleaseTimeout \<and>
            kind err = TimeoutError \<and>
            AvailablePermits cs1 = AvailablePermits cs + j \<and>
            length (buf (sem cs1)) = length (buf (sem cs)) + nat j)"
proof -
  note o = outstanding_int64 [OF inv]
  have guard: "maxPermits cs - currentPermits cs < n \<longrightarrow>
            ReleaseN n cs e =
              (Some (TooManyReleased n (maxPermits cs - currentPermits cs)), cs, e)"
    using o by (simp add: ReleaseN_def)
  have seq: "n \<le> maxPermits cs - currentPermits cs \<longrightarrow>
            ReleaseN n cs e = release_seq (nat n) cs e"
    using o ReleaseN_loop_seq [of 0 n cs e] by (simp add: ReleaseN_def)
  have partial: "ReleaseN n cs e = (Some err, cs1, e2) \<and> err = ReleaseTimeout \<and>
            AvailablePermits cs1 = AvailablePermits cs + j \<and>
            length (buf (sem cs1)) = length (buf (sem cs)) + nat j"
    if ok: "n \<le> maxPermits cs - currentPermits cs" and j: "0 \<le> j" "j < n"
      and rel_j: "ReleaseN j cs e = (None, cs1, e1)"
      and rel_fail: "Release cs1 e1 = (Some err, cs2, e2)"
  proof -
    from ok j o rel_j have loop_j: "ReleaseN_loop 0 j cs e = (None, cs1, e1)"
      by (simp add: ReleaseN_def)
    from ReleaseN_loop_split [OF loop_j, of n] j
    have "ReleaseN_loop 0 n cs e = ReleaseN_loop j n cs1 e1" by simp
    with ok o have "ReleaseN n cs e = ReleaseN_loop j n cs1 e1" by (simp add: ReleaseN_def)
    with j rel_fail have res: "ReleaseN n cs e = (Some err, cs2, e2)"
      by (simp add: ReleaseN_loop.simps [of j n])
    note f1 = ReleaseN_effect [OF inv rel_j]
    then have inv1: "sem_inv cs1" by simp
    note f2 = Release_effect [OF inv1 rel_fail]
    from f1 j have cur1: "currentPermits cs1 = currentPermits cs + j" by simp
    with inv inv1 have "int (length (buf (sem cs1))) = int (length (buf (sem cs))) + j"
      by (simp add: sem_inv_def)
    with j have "length (buf (sem cs1)) = length (buf (sem cs)) + nat j" by linarith
    with res f2 cur1 show ?thesis by (simp add: AvailablePermits_def)
  qed
  from guard seq partial show ?thesis by auto
qed

text \<open>
  \<open>ReleaseN 2\<close> with one permit outstanding, and \<open>ReleaseN 2\<close> with two outstanding and
  timeout 0, where the second \<open>Release\<close> times out.
\<close>

theorem release_n_behaviour_witness:
  "ReleaseN 2
     \<lparr>sem = \<lparr>buf = [()], cap = 2\<rparr>, maxPermits = 2, currentPermits = 1, timeout = 0\<rparr>
     \<lparr>clock = 0, pending = []\<rparr> =
     (Some (TooManyReleased 2 1),
      \<lparr>sem = \<lparr>buf = [()], cap = 2\<rparr>, maxPermits = 2, currentPermits = 1, timeout = 0\<rparr>,
      \<lparr>clock = 0, pending = []\<rparr>) \<and>
   ReleaseN 1
     \<lparr>sem = \<lparr>buf = [], cap = 2\<rparr>, maxPermits = 2, currentPermits = 0, timeout = 0\<rparr>
     \<lparr>clock = 0, pending = [\<lparr>pick = ChanCase, lag = 0\<rparr>, \<lparr>pick = TimerCase, lag = 0\<rparr>]\<rparr> =
     (None,
      \<lparr>sem = \<lparr>buf = [()], cap = 2\<rparr>, maxPermits = 2, currentPermits = 1, timeout = 0\<rparr>,
      \<lparr>clock = 0, pending = [\<lparr>pick = TimerCase, lag = 0\<rparr>]\<rparr>) \<and>
   Release
     \<lparr>sem = \<lparr>buf = [()], cap = 2\<rparr>, maxPermits = 2, currentPermits = 1, timeout = 0\<rparr>
     \<lparr>clock = 0, pending = [\<lparr>pick = TimerCase, lag = 0\<rparr>]\<rparr> =
     (Some ReleaseTimeout,
      \<lparr>sem = \<lparr>buf = [()], cap = 2\<rparr>, maxPermits = 2, currentPermits = 1, timeout = 0\<rparr>,
      \<lparr>clock = 0, pending = []\<rparr>) \<and>
   ReleaseN 2
     \<lparr>sem = \<lparr>buf = [], cap = 2\<rparr>, maxPermits = 2, currentPermits = 0, timeout = 0\<rparr>
     \<lparr>clock = 0, pending = [\<lparr>pick = ChanCase, lag = 0\<rparr>, \<lparr>pick = TimerCase, lag = 0\<rparr>]\<rparr> =
     (Some ReleaseTimeout,
      \<lparr>sem = \<lparr>buf = [()], cap = 2\<rparr>, maxPermits = 2, currentPermits = 1, timeout = 0\<rparr>,
      \<lparr>clock = 0, pending = []\<rparr>)"
proof -
  let ?cs0 = "\<lparr>sem = \<lparr>buf = [], cap = 2\<rparr>, maxPermits = 2, currentPermits = 0,
               timeout = 0\<rparr>"
  let ?cs1 = "\<lparr>sem = \<lparr>buf = [()], cap = 2\<rparr>, maxPermits = 2, currentPermits = 1,
               timeout = 0\<rparr>"
  let ?e = "\<lparr>clock = 0, pending = [\<lparr>pick = ChanCase, lag = 0\<rparr>,
             \<lparr>pick = TimerCase, lag = 0\<rparr>]\<rparr>"
  let ?e1 = "\<lparr>clock = 0, pending = [\<lparr>pick = TimerCase, lag = 0\<rparr>]\<rparr>"
  let ?e2 = "\<lparr>clock = 0, pending = []\<rparr>"
  have inv0: "sem_inv ?cs0" and inv1: "sem_inv ?cs1"
    by (simp_all add: sem_inv_def is_int64_def)
  have rel_j: "ReleaseN 1 ?cs0 ?e = (None, ?cs1, ?e1)"
    by (simp add: ReleaseN_def ReleaseN_loop.simps Release_def
        select_timeout_def timer_wins_def next_sched_def can_send_def send_def int64_def)
  have rel_fail: "Release ?cs1 ?e1 = (Some ReleaseTimeout, ?cs1, ?e2)"
    by (simp add: Release_def select_timeout_def timer_wins_def next_sched_def can_send_def)
  from release_n_behaviour [OF inv1, where n = 2 and e = ?e2]
  have "ReleaseN 2 ?cs1 ?e2 = (Some (TooManyReleased 2 1), ?cs1, ?e2)" by simp
  moreover from release_n_behaviour [OF inv0, where n = 2 and j = 1 and e = ?e and ?cs1.0 = ?cs1
      and ?e1.0 = ?e1 and err = ReleaseTimeout and ?cs2.0 = ?cs1 and ?e2.0 = ?e2,
      THEN conjunct2, THEN conjunct2]
    rel_j rel_fail
  have "ReleaseN 2 ?cs0 ?e = (Some ReleaseTimeout, ?cs1, ?e2)" by simp
  ultimately show ?thesis using rel_j rel_fail by simp
qed

subsection \<open>C10: bulk operations with \<open>n \<le> 0\<close>\<close>

text \<open>
  C10. In a state that satisfies the invariant and for \<open>n \<le> 0\<close>, \<open>AcquireN n\<close> and
  \<open>ReleaseN n\<close> both return without error and leave the semaphore, the clock and the
  scheduler input as they were.
\<close>

theorem bulk_nonpositive_is_noop:
  "sem_inv cs \<Longrightarrow> n \<le> 0 \<Longrightarrow>
     AcquireN n cs e = (None, cs, e) \<and> ReleaseN n cs e = (None, cs, e)"
proof -
  assume inv: "sem_inv cs" and n: "n \<le> 0"
  note o = outstanding_int64 [OF inv]
  from o n have "AcquireN n cs e = (None, cs, e)"
    by (simp add: AcquireN_def AvailablePermits_def AcquireN_loop.simps)
  moreover from o n have "ReleaseN n cs e = (None, cs, e)"
    by (simp add: ReleaseN_def ReleaseN_loop.simps)
  ultimately show ?thesis by simp
qed

text \<open>
  \<open>n = -1\<close> on a capacity-2 semaphore with one token.
\<close>

theorem bulk_nonpositive_is_noop_witness:
  "AcquireN (- 1) \<lparr>sem = \<lparr>buf = [()], cap = 2\<rparr>, maxPermits = 2, currentPermits = 1,
               timeout = 5000000000\<rparr> \<lparr>clock = 0, pending = [\<lparr>pick = TimerCase, lag = 9\<rparr>]\<rparr> =
     (None, \<lparr>sem = \<lparr>buf = [()], cap = 2\<rparr>, maxPermits = 2, currentPermits = 1,
               timeout = 5000000000\<rparr>, \<lparr>clock = 0, pending = [\<lparr>pick = TimerCase, lag = 9\<rparr>]\<rparr>) \<and>
   ReleaseN (- 1) \<lparr>sem = \<lparr>buf = [()], cap = 2\<rparr>, maxPermits = 2, currentPermits = 1,
               timeout = 5000000000\<rparr> \<lparr>clock = 0, pending = [\<lparr>pick = TimerCase, lag = 9\<rparr>]\<rparr> =
     (None, \<lparr>sem = \<lparr>buf = [()], cap = 2\<rparr>, maxPermits = 2, currentPermits = 1,
               timeout = 5000000000\<rparr>, \<lparr>clock = 0, pending = [\<lparr>pick = TimerCase, lag = 9\<rparr>]\<rparr>)"
  using bulk_nonpositive_is_noop
    [of "\<lparr>sem = \<lparr>buf = [()], cap = 2\<rparr>, maxPermits = 2, currentPermits = 1,
          timeout = 5000000000\<rparr>" "- 1" "\<lparr>clock = 0, pending = [\<lparr>pick = TimerCase, lag = 9\<rparr>]\<rparr>"]
  by (simp add: sem_inv_def is_int64_def)

end
